theory Spec2Isabelle
  imports Complex_Main "HOL-Library.AList" "HOL-Library.Monad_Syntax"
begin

section \<open>Modelling conventions\<close>

text \<open>
  The development embeds \<^verbatim>\<open>src/tangram.py\<close> (class \<^verbatim>\<open>TangramPuzzle\<close>).

  \<^item> Python \<^verbatim>\<open>str\<close> is \<open>string\<close>; a \<open>char\<close> is one code point below 256, so the
    model covers Latin-1 text. Every character the program's syntax inspects is ASCII.
  \<^item> Python \<^verbatim>\<open>int\<close> is \<open>int\<close>. The interpreter's configurable limit on the number of
    digits accepted by \<^verbatim>\<open>int(str)\<close> is taken to be switched off.
  \<^item> Python \<^verbatim>\<open>float\<close> is idealised as \<open>real\<close>: \<open>+\<close>, \<open>-\<close>, \<open>*\<close>, \<open>cos\<close> and \<open>sin\<close> are
    exact, and \<^verbatim>\<open>round(v, 5)\<close> rounds half to even at the fifth decimal. Statements about
    the size of IEEE-754 rounding errors are outside this model. The one exception
    Python raises on this path, the conversion of an \<^verbatim>\<open>int\<close> too large for a double, is
    kept as a branch.
  \<^item> An exception is a value of type \<open>error\<close>; a method that can raise returns
    \<open>error + 'a\<close> with \<open>Inl\<close> the exception. The object's fields are passed explicitly.
  \<^item> Reading and writing files is outside the model: \<open>parse_tex\<close> starts from the text
    read, \<open>draw_pieces\<close> ends with the drawing commands written.
\<close>

datatype error =
    ValueError
  | IndexError
  | KeyError string
  | OverflowError
  | AssertionError string

section \<open>String primitives of Python used by the program\<close>

text \<open>\<^verbatim>\<open>str.strip()\<close> removes the characters for which \<^verbatim>\<open>str.isspace\<close> holds.\<close>

definition isspace :: "char \<Rightarrow> bool" where
  "isspace c \<longleftrightarrow>
     (let n = (of_char c :: nat)
      in (9 \<le> n \<and> n \<le> 13) \<or> (28 \<le> n \<and> n \<le> 32) \<or> n = 133 \<or> n = 160)"

definition lstrip :: "string \<Rightarrow> string" where
  "lstrip s = dropWhile isspace s"

definition rstrip :: "string \<Rightarrow> string" where
  "rstrip s = rev (dropWhile isspace (rev s))"

definition strip :: "string \<Rightarrow> string" where
  "strip s = rstrip (lstrip s)"

text \<open>\<open>startswith s p\<close> is \<^verbatim>\<open>s.startswith(p)\<close>; \<open>contains s sub\<close> is \<^verbatim>\<open>sub in s\<close>.\<close>

fun startswith :: "string \<Rightarrow> string \<Rightarrow> bool" where
  "startswith s [] = True"
| "startswith [] (p # ps) = False"
| "startswith (c # s) (p # ps) = (c = p \<and> startswith s ps)"

fun contains :: "string \<Rightarrow> string \<Rightarrow> bool" where
  "contains [] sub = startswith [] sub"
| "contains (c # s) sub = (startswith (c # s) sub \<or> contains s sub)"

text \<open>\<open>remove_spaces s\<close> is \<^verbatim>\<open>s.replace(" ", "")\<close>.\<close>

definition remove_spaces :: "string \<Rightarrow> string" where
  "remove_spaces s = filter (\<lambda>c. c \<noteq> CHR '' '') s"

text \<open>\<open>split sep s\<close> is \<^verbatim>\<open>s.split(sep)\<close> for a separator of one character.\<close>

fun split :: "char \<Rightarrow> string \<Rightarrow> string list" where
  "split sep [] = [[]]"
| "split sep (c # cs) =
     (if c = sep then [] # split sep cs
      else (case split sep cs of
              [] \<Rightarrow> [[c]]
            | w # ws \<Rightarrow> (c # w) # ws))"

text \<open>
  \<^verbatim>\<open>str.splitlines()\<close>: a line ends at a line boundary (CR LF counts as one), and there
  is no empty last line after a final boundary. \<open>acc\<close> is the current line, reversed.
\<close>

definition linebreak :: "char \<Rightarrow> bool" where
  "linebreak c \<longleftrightarrow>
     (let n = (of_char c :: nat) in (10 \<le> n \<and> n \<le> 13) \<or> (28 \<le> n \<and> n \<le> 30) \<or> n = 133)"

fun splitlines_acc :: "string \<Rightarrow> string \<Rightarrow> string list" where
  "splitlines_acc acc [] = (if acc = [] then [] else [rev acc])"
| "splitlines_acc acc [c] = (if linebreak c then [rev acc] else [rev (c # acc)])"
| "splitlines_acc acc (c # d # cs) =
     (if c = CHR 0x0D \<and> d = CHR 0x0A then rev acc # splitlines_acc [] cs
      else if linebreak c then rev acc # splitlines_acc [] (d # cs)
      else splitlines_acc (c # acc) (d # cs))"

definition splitlines :: "string \<Rightarrow> string list" where
  "splitlines s = splitlines_acc [] s"

text \<open>
  \<^verbatim>\<open>int(s)\<close> on a string, base 10: surrounding white space is skipped, then an optional
  sign, then decimal digits, where single underscores may stand between digits. Anything
  else raises \<^verbatim>\<open>ValueError\<close>. The white space \<^verbatim>\<open>int\<close> skips is that of C's \<^verbatim>\<open>isspace\<close>
  together with the non-ASCII spaces, which is less than \<open>isspace\<close> above.
\<close>

definition int_space :: "char \<Rightarrow> bool" where
  "int_space c \<longleftrightarrow>
     (let n = (of_char c :: nat) in (9 \<le> n \<and> n \<le> 13) \<or> n = 32 \<or> n = 133 \<or> n = 160)"

definition isdigit :: "char \<Rightarrow> bool" where
  "isdigit c \<longleftrightarrow> (let n = (of_char c :: nat) in 48 \<le> n \<and> n \<le> 57)"

definition digit_val :: "char \<Rightarrow> nat" where
  "digit_val c = (of_char c :: nat) - 48"

fun int_digits :: "nat \<Rightarrow> string \<Rightarrow> nat option" where
  "int_digits acc [] = Some acc"
| "int_digits acc [c] = (if isdigit c then Some (acc * 10 + digit_val c) else None)"
| "int_digits acc (c # d # cs) =
     (if c = CHR ''_'' then
        (if isdigit d then int_digits (acc * 10 + digit_val d) cs else None)
      else if isdigit c then int_digits (acc * 10 + digit_val c) (d # cs)
      else None)"

definition int_unsigned :: "string \<Rightarrow> nat option" where
  "int_unsigned s =
     (case s of
        [] \<Rightarrow> None
      | c # cs \<Rightarrow> if isdigit c then int_digits (digit_val c) cs else None)"

definition py_int :: "string \<Rightarrow> error + int" where
  "py_int s =
     (let t = rev (dropWhile int_space (rev (dropWhile int_space s)));
          (neg, body) =
            (case t of
               [] \<Rightarrow> (False, t)
             | c # cs \<Rightarrow>
                 if c = CHR ''-'' then (True, cs)
                 else if c = CHR ''+'' then (False, cs)
                 else (False, t))
      in case int_unsigned body of
           None \<Rightarrow> Inl ValueError
         | Some n \<Rightarrow> Inr (if neg then - int n else int n))"

text \<open>\<^verbatim>\<open>str(n)\<close> for an integer: the decimal numeral, with a minus sign when negative.\<close>

definition digit_char :: "nat \<Rightarrow> char" where
  "digit_char d = ''0123456789'' ! d"

fun str_nat :: "nat \<Rightarrow> string" where
  "str_nat n = (if n < 10 then [digit_char n] else str_nat (n div 10) @ [digit_char (n mod 10)])"


declare str_nat.simps [simp del]

section \<open>The puzzle's data\<close>

text \<open>
  The dictionary stored in \<^verbatim>\<open>self.transformations\<close> for one label, and the dictionary
  appended to \<^verbatim>\<open>self.pieces\<close>. The keys \<^verbatim>\<open>'x'\<close> and \<^verbatim>\<open>'y'\<close> are the fields \<open>x_anchor\<close> and
  \<open>y_anchor\<close>, the names \<^verbatim>\<open>_compute_vertices\<close> reads them into. \<^verbatim>\<open>_compute_vertices\<close>
  adds the key \<^verbatim>\<open>'vertices'\<close>: a resolved piece is a piece extended by that field.
\<close>

record transformation =
  xflip :: bool
  yflip :: bool
  rotate :: int

record piece =
  name :: string
  x_anchor :: int
  y_anchor :: int
  transform :: transformation

type_synonym point = "real \<times> real"

record resolved_piece = piece +
  vertices :: "point list"

record puzzle =
  transformations :: "(string \<times> transformation) list"
  pieces :: "piece list"

section \<open>\<^verbatim>\<open>_parse_tex\<close>\<close>

definition piece_labels :: "string list" where
  "piece_labels =
     [''Large triangle 1'', ''Large triangle 2'', ''Medium triangle'',
      ''Small triangle 1'', ''Small triangle 2'', ''Square'', ''Parallelogram'']"

subsection \<open>The regular expression\<close>

text \<open>
  The pattern searched in a line is
  \<^verbatim>\<open>\\PieceTangram\[TangSol\](?:<([^>]*)>)?\(([^,]+),([^)]+)\)\{([^}]+)\}\<close>.
  Each of its repetitions excludes the character that must follow it, so from a given
  start the match is determined: a repetition runs to the first occurrence of its closing
  character and backtracking finds nothing else. \<open>until c s\<close> splits \<open>s\<close> at its first
  \<open>c\<close>; \<open>match_here\<close> matches the pattern at the start of its argument and returns the
  four groups, the first being \<open>None\<close> when the optional group does not take part.
  \<open>re_search\<close> is \<^verbatim>\<open>re.search\<close>: the match at the leftmost start that has one.
\<close>

definition directive_prefix :: string where
  "directive_prefix = CHR 0x5C # ''PieceTangram[TangSol]''"

fun strip_prefix :: "string \<Rightarrow> string \<Rightarrow> string option" where
  "strip_prefix [] s = Some s"
| "strip_prefix (p # ps) [] = None"
| "strip_prefix (p # ps) (c # s) = (if p = c then strip_prefix ps s else None)"

definition until :: "char \<Rightarrow> string \<Rightarrow> (string \<times> string) option" where
  "until c s =
     (if c \<in> set s
      then Some (takeWhile (\<lambda>d. d \<noteq> c) s, tl (dropWhile (\<lambda>d. d \<noteq> c) s))
      else None)"

definition until1 :: "char \<Rightarrow> string \<Rightarrow> (string \<times> string) option" where
  "until1 c s =
     (case until c s of
        None \<Rightarrow> None
      | Some (g, r) \<Rightarrow> if g = [] then None else Some (g, r))"

definition expect :: "char \<Rightarrow> string \<Rightarrow> string option" where
  "expect c s = (case s of [] \<Rightarrow> None | d # r \<Rightarrow> if d = c then Some r else None)"

definition options_group :: "string \<Rightarrow> (string option \<times> string) option" where
  "options_group s =
     (case expect (CHR ''<'') s of
        None \<Rightarrow> Some (None, s)
      | Some r \<Rightarrow>
          (case until (CHR ''>'') r of
             None \<Rightarrow> None
           | Some (g, r') \<Rightarrow> Some (Some g, r')))"

type_synonym groups = "string option \<times> string \<times> string \<times> string"

definition match_here :: "string \<Rightarrow> groups option" where
  "match_here s = do {
     r0 \<leftarrow> strip_prefix directive_prefix s;
     (options_str, r1) \<leftarrow> options_group r0;
     r2 \<leftarrow> expect (CHR ''('') r1;
     (x_coord, r3) \<leftarrow> until1 (CHR '','') r2;
     (y_coord, r4) \<leftarrow> until1 (CHR '')'') r3;
     r5 \<leftarrow> expect (CHR ''{'') r4;
     (piece_type, r6) \<leftarrow> until1 (CHR ''}'') r5;
     Some (options_str, x_coord, y_coord, piece_type)
   }"

fun re_search :: "string \<Rightarrow> groups option" where
  "re_search [] = match_here []"
| "re_search (c # cs) =
     (case match_here (c # cs) of
        Some g \<Rightarrow> Some g
      | None \<Rightarrow> re_search cs)"

subsection \<open>The option list\<close>

text \<open>
  The loop over \<^verbatim>\<open>options\<close>. \<^verbatim>\<open>opt.split('=')[1]\<close> exists whenever \<^verbatim>\<open>opt\<close> starts with
  \<^verbatim>\<open>rotate=\<close>; the branch for a shorter list is there for totality. Python's \<^verbatim>\<open>%\<close> with a
  positive modulus is \<open>mod\<close> on \<open>int\<close>.
\<close>

definition no_transformation :: transformation where
  "no_transformation = \<lparr>xflip = False, yflip = False, rotate = 0\<rparr>"

fun options_loop :: "string list \<Rightarrow> transformation \<Rightarrow> error + transformation" where
  "options_loop [] t = Inr t"
| "options_loop (opt # opts) t =
     (if opt = ''xscale=-1'' then options_loop opts (t\<lparr>xflip := True\<rparr>)
      else if opt = ''yscale=-1'' then options_loop opts (t\<lparr>yflip := True\<rparr>)
      else if startswith opt ''rotate='' then
        (case split (CHR ''='') opt of
           _ # v # _ \<Rightarrow>
             (case py_int v of
                Inl e \<Rightarrow> Inl e
              | Inr n \<Rightarrow> options_loop opts (t\<lparr>rotate := n mod 360\<rparr>))
         | _ \<Rightarrow> Inl IndexError)
      else options_loop opts t)"

definition parse_options :: "string option \<Rightarrow> error + transformation" where
  "parse_options options_str =
     (case options_str of
        None \<Rightarrow> Inr no_transformation
      | Some s \<Rightarrow>
          if s = [] then Inr no_transformation
          else options_loop (map strip (split (CHR '','') s)) no_transformation)"

subsection \<open>The loop over the lines\<close>

text \<open>
  \<open>is_directive_line\<close> is the condition of the comprehension that selects the lines.
  \<open>parse_line\<close> is the body of the loop: no match continues with the state unchanged;
  otherwise the options are read, then the label is taken from \<open>piece_labels\<close>
  (\<^verbatim>\<open>IndexError\<close> from the eighth match on), then the anchor is read with \<^verbatim>\<open>int\<close>. The
  group \<open>piece_type\<close> is bound and never used.
\<close>

definition is_directive_line :: "string \<Rightarrow> bool" where
  "is_directive_line line \<longleftrightarrow>
     contains line (CHR 0x5C # ''PieceTangram'') \<and> \<not> startswith (strip line) ''%''"

record parse_state =
  piece_index :: nat
  parsed :: puzzle

definition parse_line :: "string \<Rightarrow> parse_state \<Rightarrow> error + parse_state" where
  "parse_line line st =
     (case re_search (remove_spaces line) of
        None \<Rightarrow> Inr st
      | Some (options_str, x_coord, y_coord, piece_type) \<Rightarrow>
          (case parse_options options_str of
             Inl e \<Rightarrow> Inl e
           | Inr tr \<Rightarrow>
               if piece_index st < length piece_labels then
                 (let label = piece_labels ! piece_index st;
                      trs = AList.update label tr (transformations (parsed st))
                  in case py_int x_coord of
                       Inl e \<Rightarrow> Inl e
                     | Inr xi \<Rightarrow>
                         (case py_int y_coord of
                            Inl e \<Rightarrow> Inl e
                          | Inr yi \<Rightarrow>
                              Inr \<lparr>piece_index = Suc (piece_index st),
                                   parsed = \<lparr>transformations = trs,
                                             pieces = pieces (parsed st) @
                                               [\<lparr>name = label, x_anchor = xi, y_anchor = yi,
                                                 transform = tr\<rparr>]\<rparr>\<rparr>))
               else Inl IndexError))"

fun parse_loop :: "string list \<Rightarrow> parse_state \<Rightarrow> error + parse_state" where
  "parse_loop [] st = Inr st"
| "parse_loop (line # lines) st =
     (case parse_line line st of
        Inl e \<Rightarrow> Inl e
      | Inr st' \<Rightarrow> parse_loop lines st')"

definition initial_state :: parse_state where
  "initial_state = \<lparr>piece_index = 0, parsed = \<lparr>transformations = [], pieces = []\<rparr>\<rparr>"

definition count_message :: "nat \<Rightarrow> string" where
  "count_message k = ''Expected 7 pieces, found '' @ str_nat k"

definition parse_lines :: "string list \<Rightarrow> error + puzzle" where
  "parse_lines content_lines =
     (case parse_loop (filter is_directive_line content_lines) initial_state of
        Inl e \<Rightarrow> Inl e
      | Inr st \<Rightarrow>
          if piece_index st = 7 then Inr (parsed st)
          else Inl (AssertionError (count_message (piece_index st))))"

definition parse_tex :: "string \<Rightarrow> error + puzzle" where
  "parse_tex content = parse_lines (splitlines content)"

section \<open>\<^verbatim>\<open>_rotate\<close>\<close>

text \<open>
  \<open>round5 v\<close> is \<^verbatim>\<open>round(v, 5)\<close>, \<open>radians\<close> is \<^verbatim>\<open>math.radians\<close>, and \<open>rotate_xy\<close> is the
  method \<^verbatim>\<open>_rotate\<close> (the name \<open>rotate\<close> is the field of the transformation).
\<close>

definition round_half_even :: "real \<Rightarrow> int" where
  "round_half_even r =
     (let f = \<lfloor>r\<rfloor>; d = r - of_int f
      in if d < 1 / 2 then f
         else if 1 / 2 < d then f + 1
         else if even f then f else f + 1)"

definition round5 :: "real \<Rightarrow> real" where
  "round5 v = of_int (round_half_even (v * 100000)) / 100000"

definition radians :: "real \<Rightarrow> real" where
  "radians d = d * (pi / 180)"

definition rotate_xy :: "real \<Rightarrow> real \<Rightarrow> real \<Rightarrow> point" where
  "rotate_xy x y degrees =
     (let rad = radians degrees;
          cos_a = cos rad;
          sin_a = sin rad
      in (round5 (x * cos_a - y * sin_a), round5 (x * sin_a + y * cos_a)))"

section \<open>\<^verbatim>\<open>_compute_vertices\<close>\<close>

definition shape_templates :: "(string \<times> point list) list" where
  "shape_templates =
     [(''Large triangle 1'', [(0, 0), (1, 0), (0, 1)]),
      (''Large triangle 2'', [(0, 0), (1, 0), (0, 1)]),
      (''Medium triangle'', [(0, 0), (1, 0), (0, 1)]),
      (''Small triangle 1'', [(0, 0), (1, 0), (0, 1)]),
      (''Small triangle 2'', [(0, 0), (1, 0), (0, 1)]),
      (''Square'', [(0, 0), (1, 0), (1, 1), (0, 1)]),
      (''Parallelogram'', [(0, 0), (1, 0), (3 / 2, 1), (1 / 2, 1)])]"

text \<open>
  Adding the \<^verbatim>\<open>int\<close> anchor to a \<^verbatim>\<open>float\<close> converts the anchor first, which raises
  \<^verbatim>\<open>OverflowError\<close> when it does not round to a finite double.
\<close>

definition float_of_int :: "int \<Rightarrow> error + real" where
  "float_of_int n =
     (if \<bar>n\<bar> < 2 ^ 1024 - 2 ^ 970 then Inr (of_int n) else Inl OverflowError)"

text \<open>The body of the loop over \<^verbatim>\<open>base_vertices\<close>: rotate, flip, translate.\<close>

definition transform_vertex :: "piece \<Rightarrow> point \<Rightarrow> error + point" where
  "transform_vertex p v =
     (let (x_rot, y_rot) = rotate_xy (fst v) (snd v) (of_int (rotate (transform p)));
          x_rot = (if xflip (transform p) then x_rot * (- 1) else x_rot);
          y_rot = (if yflip (transform p) then y_rot * (- 1) else y_rot)
      in case float_of_int (x_anchor p) of
           Inl e \<Rightarrow> Inl e
         | Inr xa \<Rightarrow>
             (case float_of_int (y_anchor p) of
                Inl e \<Rightarrow> Inl e
              | Inr ya \<Rightarrow> Inr (round5 (x_rot + xa), round5 (y_rot + ya))))"

fun transform_loop :: "piece \<Rightarrow> point list \<Rightarrow> point list \<Rightarrow> error + point list" where
  "transform_loop p [] transformed = Inr transformed"
| "transform_loop p (v # vs) transformed =
     (case transform_vertex p v of
        Inl e \<Rightarrow> Inl e
      | Inr v' \<Rightarrow> transform_loop p vs (transformed @ [v']))"

text \<open>
  \<^verbatim>\<open>min(transformed, key=lambda p: (p[0], -p[1]))\<close>: \<open>key_less p q\<close> compares the two keys
  as Python compares tuples, and \<^verbatim>\<open>min\<close> keeps the first element whose key no later one
  is strictly below; on an empty list it raises \<^verbatim>\<open>ValueError\<close>. \<open>index_of\<close> is
  \<^verbatim>\<open>list.index\<close>.
\<close>

definition key_less :: "point \<Rightarrow> point \<Rightarrow> bool" where
  "key_less p q \<longleftrightarrow> fst p < fst q \<or> (fst p = fst q \<and> - snd p < - snd q)"

fun min_loop :: "point \<Rightarrow> point list \<Rightarrow> point" where
  "min_loop best [] = best"
| "min_loop best (p # ps) = min_loop (if key_less p best then p else best) ps"

definition min_by_key :: "point list \<Rightarrow> error + point" where
  "min_by_key ps = (case ps of [] \<Rightarrow> Inl ValueError | p # ps' \<Rightarrow> Inr (min_loop p ps'))"

fun index_of :: "'a \<Rightarrow> 'a list \<Rightarrow> error + nat" where
  "index_of a [] = Inl ValueError"
| "index_of a (b # bs) =
     (if b = a then Inr 0
      else (case index_of a bs of Inl e \<Rightarrow> Inl e | Inr i \<Rightarrow> Inr (Suc i)))"

definition canonical_order :: "point list \<Rightarrow> error + point list" where
  "canonical_order transformed =
     (case min_by_key transformed of
        Inl e \<Rightarrow> Inl e
      | Inr min_point \<Rightarrow>
          (case index_of min_point transformed of
             Inl e \<Rightarrow> Inl e
           | Inr min_idx \<Rightarrow> Inr (drop min_idx transformed @ take min_idx transformed)))"

text \<open>
  \<open>resolve base_vertices p\<close> is the body of the loop over the pieces once the template is
  known; \<open>resolve_piece\<close> looks the template up first (\<^verbatim>\<open>KeyError\<close> for an unknown name).
\<close>

definition resolve :: "point list \<Rightarrow> piece \<Rightarrow> error + resolved_piece" where
  "resolve base_vertices p =
     (case transform_loop p base_vertices [] of
        Inl e \<Rightarrow> Inl e
      | Inr transformed \<Rightarrow>
          (case canonical_order transformed of
             Inl e \<Rightarrow> Inl e
           | Inr vs \<Rightarrow>
               Inr \<lparr>name = name p, x_anchor = x_anchor p, y_anchor = y_anchor p,
                    transform = transform p, vertices = vs\<rparr>))"

definition resolve_piece :: "piece \<Rightarrow> error + resolved_piece" where
  "resolve_piece p =
     (case map_of shape_templates (name p) of
        None \<Rightarrow> Inl (KeyError (name p))
      | Some base_vertices \<Rightarrow> resolve base_vertices p)"

fun compute_vertices :: "piece list \<Rightarrow> error + resolved_piece list" where
  "compute_vertices [] = Inr []"
| "compute_vertices (p # ps) =
     (case resolve_piece p of
        Inl e \<Rightarrow> Inl e
      | Inr r \<Rightarrow>
          (case compute_vertices ps of
             Inl e \<Rightarrow> Inl e
           | Inr rs \<Rightarrow> Inr (r # rs)))"

text \<open>The constructor: parse, then compute; an exception of either leaves no object.\<close>

definition tangram_puzzle :: "string \<Rightarrow> error + resolved_piece list" where
  "tangram_puzzle content =
     (case parse_tex content of
        Inl e \<Rightarrow> Inl e
      | Inr pz \<Rightarrow> compute_vertices (pieces pz))"

section \<open>\<^verbatim>\<open>draw_pieces\<close>\<close>








section \<open>Notions used to state the properties\<close>


definition in_double_range :: "int \<Rightarrow> bool" where
  "in_double_range n \<longleftrightarrow> \<bar>n\<bar> < 2 ^ 1024 - 2 ^ 970"

text \<open>Pieces used as concrete inputs.\<close>

definition square_xflip :: piece where
  "square_xflip = \<lparr>name = ''Square'', x_anchor = 0, y_anchor = 0,
     transform = \<lparr>xflip = True, yflip = False, rotate = 0\<rparr>\<rparr>"

definition triangle_at_2_3 :: piece where
  "triangle_at_2_3 = \<lparr>name = ''Large triangle 1'', x_anchor = 2, y_anchor = 3,
     transform = \<lparr>xflip = False, yflip = False, rotate = 0\<rparr>\<rparr>"


text \<open>Lines used as concrete inputs; the first character of a directive is a backslash.\<close>

definition plain_line :: string where
  "plain_line = CHR 0x5C # ''PieceTangram[TangSol](0,0){TangGrandTri}''"


definition bad_anchor_line :: string where
  "bad_anchor_line = CHR 0x5C # ''PieceTangram[TangSol](a,0){TangCar}''"

definition unmatched_line :: string where
  "unmatched_line = CHR 0x5C # ''PieceTangram[TangSol](1;2){TangCar}''"


text \<open>
  \<open>matches\<close> lists, in file order, the groups of the selected lines on which the pattern
  matches. \<open>piece_from label g p\<close> says that the piece \<open>p\<close> carries \<open>label\<close> and the
  options and anchor read from the groups \<open>g\<close>; the type tag in \<open>g\<close> plays no part.
\<close>

definition matches :: "string list \<Rightarrow> groups list" where
  "matches content_lines =
     List.map_filter (\<lambda>line. re_search (remove_spaces line))
       (filter is_directive_line content_lines)"


definition piece_from :: "string \<Rightarrow> groups \<Rightarrow> piece \<Rightarrow> bool" where
  "piece_from label g p \<longleftrightarrow>
     (case g of (options_str, x_coord, y_coord, piece_type) \<Rightarrow>
        name p = label \<and>
        parse_options options_str = Inr (transform p) \<and>
        py_int x_coord = Inr (x_anchor p) \<and>
        py_int y_coord = Inr (y_anchor p))"

text \<open>\<open>dec_val ds\<close> is the number a string of decimal digits denotes.\<close>

definition dec_val :: "string \<Rightarrow> nat" where
  "dec_val ds = foldl (\<lambda>a c. a * 10 + digit_val c) 0 ds"

section \<open>The vertex resolver\<close>

lemma float_of_int_in_range: "in_double_range n \<Longrightarrow> float_of_int n = Inr (of_int n)"
  by (simp add: float_of_int_def in_double_range_def)

lemma float_of_int_Inr: "float_of_int n = Inr a \<Longrightarrow> in_double_range n \<and> a = of_int n"
  unfolding float_of_int_def in_double_range_def
  by (cases "\<bar>n\<bar> < 2 ^ 1024 - 2 ^ 970") simp_all

lemma in_double_range_small: "\<bar>n\<bar> < 2 ^ 53 \<Longrightarrow> in_double_range n"
proof -
  assume a: "\<bar>n\<bar> < 2 ^ 53"
  have "(2::int) ^ 53 \<le> 2 ^ 1024 - 2 ^ 970" by simp
  with a show ?thesis unfolding in_double_range_def by linarith
qed


lemma transform_vertex_Inr:
  assumes "transform_vertex p v = Inr w"
  shows "in_double_range (x_anchor p) \<and> in_double_range (y_anchor p)"
  using assms
  by (auto simp: transform_vertex_def Let_def split: prod.splits sum.splits dest: float_of_int_Inr)


lemma transform_loop_Inr:
  assumes "transform_loop p vs acc = Inr ts" "vs \<noteq> []"
  shows "in_double_range (x_anchor p) \<and> in_double_range (y_anchor p)"
  using assms by (cases vs) (auto split: sum.splits dest: transform_vertex_Inr)

lemma min_loop_mem: "min_loop best ps \<in> set (best # ps)"
  by (induction ps arbitrary: best) auto

lemma key_less_trans: "key_less a b \<Longrightarrow> key_less b c \<Longrightarrow> key_less a c"
  by (auto simp: key_less_def)

lemma key_less_total: "\<not> key_less a b \<Longrightarrow> \<not> key_less b c \<Longrightarrow> \<not> key_less a c"
  unfolding key_less_def by (cases a, cases b, cases c) (simp, linarith)

lemma min_loop_not_above_best: "\<not> key_less best (min_loop best ps)"
proof (induction ps arbitrary: best)
  case Nil
  show ?case by (simp add: key_less_def)
next
  case (Cons p ps)
  show ?case
  proof (cases "key_less p best")
    case True
    have "\<not> key_less p (min_loop p ps)" by (rule Cons.IH)
    moreover have "\<not> key_less best p" using True by (auto simp: key_less_def)
    ultimately have "\<not> key_less best (min_loop p ps)" by (rule key_less_total[rotated])
    with True show ?thesis by simp
  next
    case False
    with Cons.IH[of best] show ?thesis by simp
  qed
qed

lemma min_loop_least: "q \<in> set (best # ps) \<Longrightarrow> \<not> key_less q (min_loop best ps)"
proof (induction ps arbitrary: best)
  case Nil
  then show ?case by (simp add: key_less_def)
next
  case (Cons p ps)
  let ?b = "if key_less p best then p else best"
  have m: "min_loop best (p # ps) = min_loop ?b ps" by simp
  from Cons.prems have "q = best \<or> q = p \<or> q \<in> set ps" by auto
  then show ?case
  proof (elim disjE)
    assume "q \<in> set ps"
    then show ?thesis using Cons.IH[of ?b] m by simp
  next
    assume q: "q = p"
    have 1: "\<not> key_less ?b (min_loop ?b ps)" by (rule min_loop_not_above_best)
    have 2: "\<not> key_less p ?b" by (auto simp: key_less_def)
    from 2 1 have "\<not> key_less p (min_loop ?b ps)" by (rule key_less_total)
    with q m show ?thesis by simp
  next
    assume q: "q = best"
    have 1: "\<not> key_less ?b (min_loop ?b ps)" by (rule min_loop_not_above_best)
    have 2: "\<not> key_less best ?b" by (auto simp: key_less_def)
    from 2 1 have "\<not> key_less best (min_loop ?b ps)" by (rule key_less_total)
    with q m show ?thesis by simp
  qed
qed

lemma index_of_mem: "a \<in> set xs \<Longrightarrow> \<exists>i. index_of a xs = Inr i \<and> i < length xs \<and> xs ! i = a"
  by (induction xs) auto

lemma min_by_key_Inr:
  assumes "min_by_key ts = Inr m"
  shows "m \<in> set ts \<and> (\<forall>q\<in>set ts. \<not> key_less q m)"
proof (cases ts)
  case Nil
  with assms show ?thesis by (simp add: min_by_key_def)
next
  case (Cons t ts')
  with assms have m: "m = min_loop t ts'" by (simp add: min_by_key_def)
  have "min_loop t ts' \<in> set (t # ts')" by (rule min_loop_mem)
  moreover have "\<forall>q\<in>set (t # ts'). \<not> key_less q (min_loop t ts')"
    using min_loop_least by blast
  ultimately show ?thesis unfolding m Cons by blast
qed


lemma canonical_order_Inr:
  assumes "canonical_order ts = Inr vs"
  shows "\<exists>i. i < length ts \<and> vs = drop i ts @ take i ts \<and> (\<forall>q\<in>set ts. \<not> key_less q (ts ! i))"
proof -
  from assms obtain m where m: "min_by_key ts = Inr m"
    unfolding canonical_order_def by (cases "min_by_key ts") simp_all
  from assms m obtain i where i: "index_of m ts = Inr i"
    unfolding canonical_order_def by (cases "index_of m ts") simp_all
  from assms m i have vs: "vs = drop i ts @ take i ts"
    unfolding canonical_order_def by simp
  from min_by_key_Inr[OF m] have mem: "m \<in> set ts" and least: "\<forall>q\<in>set ts. \<not> key_less q m"
    by blast+
  from index_of_mem[OF mem] i have "i < length ts" "ts ! i = m" by simp_all
  with vs least show ?thesis by blast
qed


lemma hd_drop_take: "i < length ts \<Longrightarrow> hd (drop i ts @ take i ts) = ts ! i"
  by (simp add: hd_append hd_drop_conv_nth)

lemma set_drop_take: "set (drop i ts @ take i ts) = set ts"
proof -
  have "set (drop i ts @ take i ts) = set (take i ts) \<union> set (drop i ts)" by auto
  also have "\<dots> = set (take i ts @ drop i ts)" by (simp only: set_append)
  also have "\<dots> = set ts" by (simp only: append_take_drop_id)
  finally show ?thesis .
qed



lemma resolve_Inr:
  assumes "resolve base p = Inr r"
  shows "\<exists>ts i. transform_loop p base [] = Inr ts \<and> i < length ts \<and>
           vertices r = drop i ts @ take i ts \<and> (\<forall>q\<in>set ts. \<not> key_less q (ts ! i))"
proof -
  from assms obtain ts where ts: "transform_loop p base [] = Inr ts"
    unfolding resolve_def by (cases "transform_loop p base []") simp_all
  from assms ts obtain vs where vs: "canonical_order ts = Inr vs"
    unfolding resolve_def by (cases "canonical_order ts") simp_all
  from assms ts vs have "vertices r = vs" unfolding resolve_def by auto
  with canonical_order_Inr[OF vs] ts show ?thesis by blast
qed

lemma resolve_piece_Inr:
  assumes "resolve_piece p = Inr r"
  shows "\<exists>base. map_of shape_templates (name p) = Some base \<and> resolve base p = Inr r"
  using assms unfolding resolve_piece_def
  by (cases "map_of shape_templates (name p)") simp_all



lemma not_key_less_iff:
  "\<not> key_less q m \<longleftrightarrow> fst m \<le> fst q \<and> (fst q = fst m \<longrightarrow> snd q \<le> snd m)"
  unfolding key_less_def by (cases q, cases m) (simp, linarith)

text \<open>
  Claim C2. In every resolved piece the first vertex has the least \<open>x\<close> of all its
  vertices, and among the vertices with that \<open>x\<close> it has the greatest \<open>y\<close>; the vertex
  list is the transformed list read cyclically from the index of that vertex, with no
  other reordering.
\<close>

theorem canonical_start_vertex:
  assumes "resolve_piece p = Inr r"
  shows "\<exists>base ts i. map_of shape_templates (name p) = Some base \<and>
           transform_loop p base [] = Inr ts \<and> i < length ts \<and>
           vertices r = drop i ts @ take i ts \<and>
           (\<forall>v\<in>set (vertices r).
              fst (hd (vertices r)) \<le> fst v \<and>
              (fst v = fst (hd (vertices r)) \<longrightarrow> snd v \<le> snd (hd (vertices r))))"
proof -
  from resolve_piece_Inr[OF assms] obtain base where
    base: "map_of shape_templates (name p) = Some base" and r: "resolve base p = Inr r" by blast
  from resolve_Inr[OF r] obtain ts i where
    ts: "transform_loop p base [] = Inr ts" and i: "i < length ts" and
    vs: "vertices r = drop i ts @ take i ts" and
    least: "\<forall>q\<in>set ts. \<not> key_less q (ts ! i)" by blast
  have hd: "hd (vertices r) = ts ! i" unfolding vs using i by (rule hd_drop_take)
  have set: "set (vertices r) = set ts" unfolding vs by (rule set_drop_take)
  have "\<forall>v\<in>set (vertices r). fst (hd (vertices r)) \<le> fst v \<and>
          (fst v = fst (hd (vertices r)) \<longrightarrow> snd v \<le> snd (hd (vertices r)))"
    unfolding hd set using least by (simp add: not_key_less_iff)
  with base ts i vs show ?thesis by blast
qed

subsection \<open>Evaluating concrete pieces\<close>

lemma rotate_xy_0: "rotate_xy x y 0 = (round5 x, round5 y)"
  by (simp add: rotate_xy_def radians_def)

lemma round5_of_int: "round5 (of_int k) = of_int k"
  by (simp add: round5_def round_half_even_def)

lemma round5_numerals: "round5 0 = 0" "round5 1 = 1" "round5 (- 1) = - 1"
  "round5 2 = 2" "round5 3 = 3" "round5 4 = 4"
  using round5_of_int[of 0] round5_of_int[of 1] round5_of_int[of "- 1"]
    round5_of_int[of 2] round5_of_int[of 3] round5_of_int[of 4] by simp_all

lemma float_of_int_small: "\<bar>n\<bar> < 2 ^ 53 \<Longrightarrow> float_of_int n = Inr (of_int n)"
  by (rule float_of_int_in_range) (rule in_double_range_small)

lemma square_xflip_transformed:
  "transform_loop square_xflip [(0, 0), (1, 0), (1, 1), (0, 1)] [] =
     Inr [(0, 0), (- 1, 0), (- 1, 1), (0, 1)]"
  by (simp add: square_xflip_def transform_vertex_def rotate_xy_0 round5_numerals
      float_of_int_small)

lemma square_xflip_canonical:
  "canonical_order [(0, 0), (- 1, 0), (- 1, 1), (0, 1)] =
     Inr [(- 1, 1), (0, 1), (0, 0), (- 1, 0)]"
  by (simp add: canonical_order_def min_by_key_def key_less_def)

lemma square_template:
  "map_of shape_templates (name square_xflip) = Some [(0, 0), (1, 0), (1, 1), (0, 1)]"
  by (simp add: square_xflip_def shape_templates_def)

text \<open>
  Claim C7. The square template under x-flip, rotation 0 and anchor \<open>(0, 0)\<close> is
  transformed to \<open>(0,0), (-1,0), (-1,1), (0,1)\<close>, and the final list starts at \<open>(-1, 1)\<close>:
  of the two points with \<open>x = -1\<close> the one with the greater \<open>y\<close> has the smaller key.
\<close>

theorem square_xflip_scenario:
  "map_of shape_templates (name square_xflip) = Some [(0, 0), (1, 0), (1, 1), (0, 1)] \<and>
   transform_loop square_xflip [(0, 0), (1, 0), (1, 1), (0, 1)] [] =
     Inr [(0, 0), (- 1, 0), (- 1, 1), (0, 1)] \<and>
   resolve_piece square_xflip =
     Inr \<lparr>name = ''Square'', x_anchor = 0, y_anchor = 0,
          transform = \<lparr>xflip = True, yflip = False, rotate = 0\<rparr>,
          vertices = [(- 1, 1), (0, 1), (0, 0), (- 1, 0)]\<rparr> \<and>
   key_less (- 1, 1) (- 1, 0)"
proof -
  have "resolve_piece square_xflip =
     Inr \<lparr>name = ''Square'', x_anchor = 0, y_anchor = 0,
          transform = \<lparr>xflip = True, yflip = False, rotate = 0\<rparr>,
          vertices = [(- 1, 1), (0, 1), (0, 0), (- 1, 0)]\<rparr>"
    apply (simp only: resolve_piece_def resolve_def square_template square_xflip_transformed
        square_xflip_canonical option.case sum.case)
    apply (simp add: square_xflip_def)
    done
  moreover have "key_less (- 1, 1) (- 1, 0)" by (simp add: key_less_def)
  ultimately show ?thesis using square_template square_xflip_transformed by simp
qed


lemma triangle_at_2_3_resolved:
  "resolve_piece triangle_at_2_3 =
     Inr \<lparr>name = ''Large triangle 1'', x_anchor = 2, y_anchor = 3,
          transform = \<lparr>xflip = False, yflip = False, rotate = 0\<rparr>,
          vertices = [(2, 4), (2, 3), (3, 3)]\<rparr>"
proof -
  have t: "map_of shape_templates (name triangle_at_2_3) = Some [(0, 0), (1, 0), (0, 1)]"
    by (simp add: triangle_at_2_3_def shape_templates_def)
  have l: "transform_loop triangle_at_2_3 [(0, 0), (1, 0), (0, 1)] [] =
      Inr [(2, 3), (3, 3), (2, 4)]"
    by (simp add: triangle_at_2_3_def transform_vertex_def rotate_xy_0 round5_numerals
        float_of_int_small)
  have c: "canonical_order [(2, 3), (3, 3), (2, 4)] = Inr [(2, 4), (2, 3), (3, 3)]"
    by (simp add: canonical_order_def min_by_key_def key_less_def)
  show ?thesis
    apply (simp only: resolve_piece_def resolve_def t l c option.case sum.case)
    apply (simp add: triangle_at_2_3_def)
    done
qed

text \<open>The theorem of claim C2 at a triangle anchored at \<open>(2, 3)\<close>: it starts at \<open>(2, 4)\<close>.\<close>

theorem canonical_start_vertex_witness:
  "resolve_piece triangle_at_2_3 =
     Inr \<lparr>name = ''Large triangle 1'', x_anchor = 2, y_anchor = 3,
          transform = \<lparr>xflip = False, yflip = False, rotate = 0\<rparr>,
          vertices = [(2, 4), (2, 3), (3, 3)]\<rparr> \<and>
   (\<exists>base ts i. map_of shape_templates (name triangle_at_2_3) = Some base \<and>
      transform_loop triangle_at_2_3 base [] = Inr ts \<and> i < length ts \<and>
      [(2, 4), (2, 3), (3, 3)] = drop i ts @ take i ts \<and>
      (\<forall>v\<in>set [(2, 4), (2, 3), (3, 3 :: real)].
         (2 :: real) \<le> fst v \<and> (fst v = 2 \<longrightarrow> snd v \<le> 4)))"
  using canonical_start_vertex[OF triangle_at_2_3_resolved] triangle_at_2_3_resolved
  by simp

section \<open>The diagram emitter\<close>















section \<open>The directive extractor\<close>

lemma parse_line_unmatched:
  "re_search (remove_spaces line) = None \<Longrightarrow> parse_line line st = Inr st"
  by (simp add: parse_line_def)

lemma parse_line_matched:
  assumes "re_search (remove_spaces line) = Some g" and "parse_line line st = Inr st'"
  shows "\<exists>p. piece_index st < 7 \<and> piece_index st' = Suc (piece_index st) \<and>
           pieces (parsed st') = pieces (parsed st) @ [p] \<and>
           piece_from (piece_labels ! piece_index st) g p"
proof -
  obtain options_str x_coord y_coord piece_type where
    g: "g = (options_str, x_coord, y_coord, piece_type)" by (cases g) auto
  from assms(2) obtain tr where tr: "parse_options options_str = Inr tr"
    using assms(1) unfolding parse_line_def g by (cases "parse_options options_str") simp_all
  have len: "length piece_labels = 7" by (simp add: piece_labels_def)
  from assms tr have idx: "piece_index st < 7"
    unfolding parse_line_def g len by (cases "piece_index st < 7") simp_all
  from assms tr idx obtain xi where xi: "py_int x_coord = Inr xi"
    unfolding parse_line_def g len by (cases "py_int x_coord") (simp_all add: Let_def)
  from assms tr idx xi obtain yi where yi: "py_int y_coord = Inr yi"
    unfolding parse_line_def g len by (cases "py_int y_coord") (simp_all add: Let_def)
  from assms tr idx xi yi have
    "st' = \<lparr>piece_index = Suc (piece_index st),
           parsed = \<lparr>transformations =
                       AList.update (piece_labels ! piece_index st) tr (transformations (parsed st)),
                     pieces = pieces (parsed st) @
                       [\<lparr>name = piece_labels ! piece_index st, x_anchor = xi, y_anchor = yi,
                         transform = tr\<rparr>]\<rparr>\<rparr>"
    unfolding parse_line_def g len by (simp add: Let_def)
  then show ?thesis using idx tr xi yi by (simp add: piece_from_def g)
qed

lemma parse_loop_skip:
  assumes "re_search (remove_spaces line) = None"
  shows "parse_loop (pre @ line # post) st = parse_loop (pre @ post) st"
proof (induction pre arbitrary: st)
  case Nil
  show ?case by (simp add: parse_line_unmatched[OF assms])
next
  case (Cons l pre)
  show ?case by (cases "parse_line l st") (simp_all add: Cons.IH)
qed

lemma parse_loop_Inr:
  assumes "parse_loop content_lines st = Inr st'"
  shows "\<exists>new. piece_index st' = piece_index st +
             length (List.map_filter (\<lambda>line. re_search (remove_spaces line)) content_lines) \<and>
           pieces (parsed st') = pieces (parsed st) @ new \<and>
           length new =
             length (List.map_filter (\<lambda>line. re_search (remove_spaces line)) content_lines) \<and>
           (\<forall>k<length new.
              piece_from (piece_labels ! (piece_index st + k))
                (List.map_filter (\<lambda>line. re_search (remove_spaces line)) content_lines ! k)
                (new ! k))"
  using assms
proof (induction content_lines arbitrary: st)
  case Nil
  then show ?case by (simp add: List.map_filter_simps)
next
  case (Cons l ls)
  let ?ms = "List.map_filter (\<lambda>line. re_search (remove_spaces line)) ls"
  from Cons.prems obtain st1 where st1: "parse_line l st = Inr st1"
    and rest: "parse_loop ls st1 = Inr st'"
    by (cases "parse_line l st") simp_all
  from Cons.IH[OF rest] obtain new where
    n1: "piece_index st' = piece_index st1 + length ?ms" and
    n2: "pieces (parsed st') = pieces (parsed st1) @ new" and
    n3: "length new = length ?ms" and
    n4: "\<forall>k<length new. piece_from (piece_labels ! (piece_index st1 + k)) (?ms ! k) (new ! k)"
    by blast
  show ?case
  proof (cases "re_search (remove_spaces l)")
    case None
    with st1 have "st1 = st" by (simp add: parse_line_unmatched)
    with None n1 n2 n3 n4 show ?thesis by (auto simp: List.map_filter_simps)
  next
    case (Some g)
    from parse_line_matched[OF Some st1] obtain p where
      p1: "piece_index st1 = Suc (piece_index st)" and
      p2: "pieces (parsed st1) = pieces (parsed st) @ [p]" and
      p3: "piece_from (piece_labels ! piece_index st) g p" by blast
    have ms: "List.map_filter (\<lambda>line. re_search (remove_spaces line)) (l # ls) = g # ?ms"
      using Some by (simp add: List.map_filter_simps)
    have "\<forall>k<length (p # new).
            piece_from (piece_labels ! (piece_index st + k)) ((g # ?ms) ! k) ((p # new) ! k)"
    proof (intro allI impI)
      fix k assume k: "k < length (p # new)"
      show "piece_from (piece_labels ! (piece_index st + k)) ((g # ?ms) ! k) ((p # new) ! k)"
      proof (cases k)
        case 0
        with p3 show ?thesis by simp
      next
        case (Suc j)
        with k have "j < length new" by simp
        with n4 have "piece_from (piece_labels ! (piece_index st1 + j)) (?ms ! j) (new ! j)"
          by blast
        with Suc p1 show ?thesis by simp
      qed
    qed
    moreover have "pieces (parsed st') = pieces (parsed st) @ (p # new)" using n2 p2 by simp
    moreover have "piece_index st' = piece_index st + length (g # ?ms)" using n1 p1 by simp
    moreover have "length (p # new) = length (g # ?ms)" using n3 by simp
    ultimately show ?thesis unfolding ms by blast
  qed
qed


text \<open>
  Claim C4, amended. A line that is not selected, or on which the pattern finds no match,
  is skipped: the result of parsing is the same as without the line, so it is not counted
  and the remaining lines are parsed.
\<close>

theorem unmatched_line_skipped:
  assumes "\<not> is_directive_line line \<or> re_search (remove_spaces line) = None"
  shows "parse_lines (pre @ line # post) = parse_lines (pre @ post)"
proof (cases "is_directive_line line")
  case False
  then show ?thesis by (simp add: parse_lines_def)
next
  case True
  with assms have none: "re_search (remove_spaces line) = None" by simp
  have "filter is_directive_line (pre @ line # post) =
        filter is_directive_line pre @ line # filter is_directive_line post"
    using True by simp
  then show ?thesis
    unfolding parse_lines_def by (simp add: parse_loop_skip[OF none])
qed



text \<open>
  Claim C4 as stated fails: a line that matches the pattern with the anchor \<open>(a,0)\<close> is
  not skipped; \<^verbatim>\<open>int('a')\<close> raises \<^verbatim>\<open>ValueError\<close> and parsing stops, although the seven lines
  after it parse on their own.
\<close>

theorem non_integer_anchor_aborts:
  "parse_lines (bad_anchor_line # replicate 7 plain_line) = Inl ValueError \<and>
   \<not> isl (parse_lines (replicate 7 plain_line)) \<and>
   is_directive_line bad_anchor_line \<and>
   re_search (remove_spaces bad_anchor_line) = Some (None, ''a'', ''0'', ''TangCar'') \<and>
   py_int ''a'' = Inl ValueError"
  by code_simp

text \<open>The amended claim C4 at a line whose anchor has no comma.\<close>

theorem unmatched_line_skipped_witness:
  "is_directive_line unmatched_line \<and>
   re_search (remove_spaces unmatched_line) = None \<and>
   parse_lines (replicate 3 plain_line @ unmatched_line # replicate 4 plain_line) =
     parse_lines (replicate 3 plain_line @ replicate 4 plain_line) \<and>
   \<not> isl (parse_lines (replicate 3 plain_line @ unmatched_line # replicate 4 plain_line))"
proof -
  have d: "is_directive_line unmatched_line" by code_simp
  have n: "re_search (remove_spaces unmatched_line) = None" by code_simp
  from n have h: "\<not> is_directive_line unmatched_line \<or> re_search (remove_spaces unmatched_line) = None"
    by (rule disjI2)
  have "\<not> isl (parse_lines (replicate 3 plain_line @ replicate 4 plain_line))" by code_simp
  with unmatched_line_skipped[OF h, of "replicate 3 plain_line" "replicate 4 plain_line"] d n
  show ?thesis by simp
qed

subsection \<open>The count check in general\<close>

text \<open>
  The loop raises only \<^verbatim>\<open>ValueError\<close> and \<^verbatim>\<open>IndexError\<close>, and the index never passes 7. So
  the message of the assertion is produced only when fewer than seven lines match, and an
  input with more than seven matching lines fails with one of the other two exceptions.
\<close>

lemma py_int_error: "py_int s = Inl e \<Longrightarrow> e = ValueError"
  by (auto simp: py_int_def Let_def split: prod.splits option.splits)

lemma options_loop_error:
  "options_loop opts t = Inl e \<Longrightarrow> e = ValueError \<or> e = IndexError"
proof (induction opts arbitrary: t)
  case Nil
  then show ?case by simp
next
  case (Cons opt opts)
  then show ?case
    by (auto split: if_splits list.splits sum.splits dest: py_int_error)
qed

lemma parse_options_error:
  "parse_options options_str = Inl e \<Longrightarrow> e = ValueError \<or> e = IndexError"
  by (auto simp: parse_options_def split: option.splits if_splits dest: options_loop_error)

lemma parse_line_error:
  "parse_line line st = Inl e \<Longrightarrow> e = ValueError \<or> e = IndexError"
  by (auto simp: parse_line_def Let_def
      split: option.splits prod.splits sum.splits if_splits
      dest: parse_options_error py_int_error)

lemma parse_loop_error:
  "parse_loop content_lines st = Inl e \<Longrightarrow> e = ValueError \<or> e = IndexError"
proof (induction content_lines arbitrary: st)
  case Nil
  then show ?case by simp
next
  case (Cons l ls)
  then show ?case
    by (cases "parse_line l st") (auto dest: parse_line_error)
qed

lemma parse_loop_index_bound:
  "parse_loop content_lines st = Inr st' \<Longrightarrow> piece_index st \<le> 7 \<Longrightarrow> piece_index st' \<le> 7"
proof (induction content_lines arbitrary: st)
  case Nil
  then show ?case by simp
next
  case (Cons l ls)
  from Cons.prems(1) obtain st1 where st1: "parse_line l st = Inr st1"
    and rest: "parse_loop ls st1 = Inr st'"
    by (cases "parse_line l st") simp_all
  have "piece_index st1 \<le> 7"
  proof (cases "re_search (remove_spaces l)")
    case None
    with st1 Cons.prems(2) show ?thesis by (simp add: parse_line_unmatched)
  next
    case (Some g)
    from parse_line_matched[OF Some st1] show ?thesis by auto
  qed
  with Cons.IH[OF rest] show ?case .
qed

lemma count_message_only_below_seven:
  assumes "parse_lines content_lines = Inl (AssertionError m)"
  shows "length (matches content_lines) < 7 \<and> m = count_message (length (matches content_lines))"
proof (cases "parse_loop (filter is_directive_line content_lines) initial_state")
  case (Inl e)
  with assms have "e = AssertionError m" by (simp add: parse_lines_def)
  with parse_loop_error[OF Inl] show ?thesis by simp
next
  case (Inr st)
  have i0: "piece_index initial_state = 0" by (simp add: initial_state_def)
  from parse_loop_index_bound[OF Inr] i0 have le: "piece_index st \<le> 7" by simp
  from parse_loop_Inr[OF Inr] i0 have n: "piece_index st = length (matches content_lines)"
    unfolding matches_def by auto
  from assms Inr have "piece_index st \<noteq> 7" "m = count_message (piece_index st)"
    by (simp_all add: parse_lines_def split: if_splits)
  with le n show ?thesis by simp
qed

lemma more_than_seven_never_count_message:
  assumes "7 < length (matches content_lines)"
  shows "parse_lines content_lines = Inl ValueError \<or> parse_lines content_lines = Inl IndexError"
proof (cases "parse_loop (filter is_directive_line content_lines) initial_state")
  case (Inl e)
  with parse_loop_error[OF Inl] show ?thesis by (auto simp: parse_lines_def)
next
  case (Inr st)
  have i0: "piece_index initial_state = 0" by (simp add: initial_state_def)
  from parse_loop_index_bound[OF Inr] i0 have le: "piece_index st \<le> 7" by simp
  from parse_loop_Inr[OF Inr] i0 have n: "piece_index st = length (matches content_lines)"
    unfolding matches_def by auto
  with le assms show ?thesis by simp
qed

text \<open>
  Claim C3 at concrete inputs. Six matching lines fail with the message of the assertion;
  eight matching lines fail earlier, with \<^verbatim>\<open>IndexError\<close> from \<^verbatim>\<open>piece_labels[7]\<close>, and no
  message states the counts; seven matching lines succeed.
\<close>

theorem eighth_directive_index_error:
  "parse_lines (replicate 8 plain_line) = Inl IndexError \<and>
   parse_lines (replicate 6 plain_line) =
     Inl (AssertionError ''Expected 7 pieces, found 6'') \<and>
   \<not> isl (parse_lines (replicate 7 plain_line))"
  by code_simp

section \<open>Integers and their decimal numerals\<close>

lemma digit_cases: "d < 10 \<Longrightarrow> d = 0 \<or> d = 1 \<or> d = 2 \<or> d = 3 \<or> d = 4 \<or> d = 5 \<or> d = 6 \<or> d = 7 \<or> d = 8 \<or> d = (9::nat)"
  by arith

lemma digit_char_isdigit: "d < 10 \<Longrightarrow> isdigit (digit_char d)"
  by (drule digit_cases) (elim disjE; simp add: digit_char_def isdigit_def)

lemma digit_char_val: "d < 10 \<Longrightarrow> digit_val (digit_char d) = d"
  by (drule digit_cases) (elim disjE; simp add: digit_char_def digit_val_def)

lemma isdigit_not_special:
  assumes "isdigit c"
  shows "c \<noteq> CHR ''_''" "c \<noteq> CHR ''-''" "c \<noteq> CHR ''+''" "c \<noteq> CHR '',''" "c \<noteq> CHR ''=''"
    "\<not> isspace c" "\<not> int_space c"
  using assms by (auto simp: isdigit_def isspace_def int_space_def Let_def)

lemma str_nat_digits: "str_nat n \<noteq> [] \<and> (\<forall>c\<in>set (str_nat n). isdigit c)"
proof (induction n rule: str_nat.induct)
  case (1 n)
  show ?case
  proof (cases "n < 10")
    case True
    then show ?thesis by (simp add: str_nat.simps[of n] digit_char_isdigit)
  next
    case False
    with 1 have "\<forall>c\<in>set (str_nat (n div 10)). isdigit c" by simp
    moreover have "isdigit (digit_char (n mod 10))" by (simp add: digit_char_isdigit)
    ultimately show ?thesis using False by (simp add: str_nat.simps[of n])
  qed
qed

lemma dec_val_str_nat: "dec_val (str_nat n) = n"
proof (induction n rule: str_nat.induct)
  case (1 n)
  show ?case
  proof (cases "n < 10")
    case True
    then show ?thesis by (simp add: str_nat.simps[of n] dec_val_def digit_char_val)
  next
    case False
    with 1 have "dec_val (str_nat (n div 10)) = n div 10" by simp
    then show ?thesis using False
      by (simp add: str_nat.simps[of n] dec_val_def digit_char_val)
  qed
qed

lemma int_digits_all_digits:
  "\<forall>c\<in>set ds. isdigit c \<Longrightarrow>
     int_digits acc ds = Some (foldl (\<lambda>a c. a * 10 + digit_val c) acc ds)"
proof (induction acc ds rule: int_digits.induct)
  case (1 acc)
  show ?case by simp
next
  case (2 acc c)
  then show ?case by simp
next
  case (3 acc c d cs)
  from "3.prems" have c: "isdigit c" "c \<noteq> CHR ''_''" by (auto dest: isdigit_not_special)
  with 3 show ?case by simp
qed

lemma int_unsigned_all_digits:
  assumes "ds \<noteq> []" "\<forall>c\<in>set ds. isdigit c"
  shows "int_unsigned ds = Some (dec_val ds)"
proof -
  from assms(1) obtain c cs where ds: "ds = c # cs" by (cases ds) auto
  with assms(2) have "isdigit c" "\<forall>c\<in>set cs. isdigit c" by simp_all
  then show ?thesis
    unfolding ds by (simp add: int_unsigned_def int_digits_all_digits dec_val_def)
qed

lemma int_unsigned_str_nat: "int_unsigned (str_nat n) = Some n"
  using int_unsigned_all_digits[of "str_nat n"] str_nat_digits[of n]
  by (simp add: dec_val_str_nat)








section \<open>The option list\<close>






lemma startswith_rotate_not_scale:
  "startswith opt ''rotate='' \<Longrightarrow> opt \<noteq> ''xscale=-1'' \<and> opt \<noteq> ''yscale=-1''"
  by auto

lemma options_loop_rotate:
  assumes "options_loop opts t = Inr t'"
  shows "(filter (\<lambda>opt. startswith opt ''rotate='') opts = [] \<longrightarrow> rotate t' = rotate t) \<and>
         (filter (\<lambda>opt. startswith opt ''rotate='') opts \<noteq> [] \<longrightarrow>
            (\<exists>w v rest n.
               split (CHR ''='') (last (filter (\<lambda>opt. startswith opt ''rotate='') opts)) =
                 w # v # rest \<and>
               py_int v = Inr n \<and> rotate t' = n mod 360))"
  using assms
proof (induction opts arbitrary: t)
  case Nil
  then show ?case by simp
next
  case (Cons opt opts)
  let ?rot = "\<lambda>opt. startswith opt ''rotate=''"
  show ?case
  proof (cases "?rot opt")
    case False
    from Cons.prems False obtain t1 where
      t1: "options_loop opts t1 = Inr t'" and r: "rotate t1 = rotate t"
      by (auto split: if_splits)
    from Cons.IH[OF t1] r False show ?thesis by simp
  next
    case True
    then have ne: "opt \<noteq> ''xscale=-1''" "opt \<noteq> ''yscale=-1''"
      using startswith_rotate_not_scale by blast+
    from Cons.prems True ne obtain w v rest n where
      sp: "split (CHR ''='') opt = w # v # rest" and n: "py_int v = Inr n" and
      t1: "options_loop opts (t\<lparr>rotate := n mod 360\<rparr>) = Inr t'"
      by (auto split: list.splits sum.splits)
    show ?thesis
    proof (cases "filter ?rot opts = []")
      case e: True
      with Cons.IH[OF t1] have "rotate t' = n mod 360" by simp
      with e True sp n show ?thesis by auto
    next
      case ne': False
      with Cons.IH[OF t1] True show ?thesis by simp
    qed
  qed
qed

text \<open>
  Claim C10. When an option list parses and has at least one option starting with
  \<^verbatim>\<open>rotate=\<close>, the rotation is the integer written in the last such option, modulo 360:
  earlier occurrences are overwritten.
\<close>

theorem last_rotate_wins:
  assumes "parse_options (Some s) = Inr t"
    and "filter (\<lambda>opt. startswith opt ''rotate='') (map strip (split (CHR '','') s)) \<noteq> []"
  shows "\<exists>w v rest n.
           split (CHR ''='')
             (last (filter (\<lambda>opt. startswith opt ''rotate='') (map strip (split (CHR '','') s)))) =
             w # v # rest \<and>
           py_int v = Inr n \<and> rotate t = n mod 360"
proof -
  have "s \<noteq> []" using assms(2) by (auto simp: strip_def lstrip_def rstrip_def)
  with assms(1) have "options_loop (map strip (split (CHR '','') s)) no_transformation = Inr t"
    by (simp add: parse_options_def)
  from options_loop_rotate[OF this] assms(2) show ?thesis by blast
qed

text \<open>The theorem of claim C10 at \<^verbatim>\<open>rotate=90, xscale=-1,rotate=-45\<close>: the rotation is 315.\<close>

theorem last_rotate_wins_witness:
  "parse_options (Some ''rotate=90, xscale=-1,rotate=-45'') =
     Inr \<lparr>xflip = True, yflip = False, rotate = 315\<rparr> \<and>
   filter (\<lambda>opt. startswith opt ''rotate='')
     (map strip (split (CHR '','') ''rotate=90, xscale=-1,rotate=-45'')) =
     [''rotate=90'', ''rotate=-45''] \<and>
   (\<exists>w v rest n.
      split (CHR ''='') ''rotate=-45'' = w # v # rest \<and> py_int v = Inr n \<and> 315 = n mod 360)"
proof -
  have p: "parse_options (Some ''rotate=90, xscale=-1,rotate=-45'') =
     Inr \<lparr>xflip = True, yflip = False, rotate = 315\<rparr>" by code_simp
  have f: "filter (\<lambda>opt. startswith opt ''rotate='')
     (map strip (split (CHR '','') ''rotate=90, xscale=-1,rotate=-45'')) =
     [''rotate=90'', ''rotate=-45'']" by code_simp
  then have ne: "filter (\<lambda>opt. startswith opt ''rotate='')
     (map strip (split (CHR '','') ''rotate=90, xscale=-1,rotate=-45'')) \<noteq> []" by simp
  from last_rotate_wins[OF p ne] p f show ?thesis by simp
qed

end
